theory Spec2Isabelle
  imports Complex_Main
begin

section \<open>Strings as the program uses them\<close>

text \<open>
  A Python \<open>str\<close> is modelled as a \<open>string\<close>, each \<open>char\<close> read as the code point of
  the same number (0 to 255). The character classes below are Python's \<open>str.isalnum\<close>
  and \<open>str.isspace\<close> on exactly that range.
\<close>

definition ord :: "char \<Rightarrow> nat" where
  "ord c = of_char c"

definition isalnum :: "char \<Rightarrow> bool" where
  "isalnum c =
     (let n = ord c in
        (48 \<le> n \<and> n \<le> 57) \<or> (65 \<le> n \<and> n \<le> 90) \<or> (97 \<le> n \<and> n \<le> 122)
        \<or> n = 170 \<or> n = 178 \<or> n = 179 \<or> n = 181 \<or> n = 185 \<or> n = 186
        \<or> (188 \<le> n \<and> n \<le> 190) \<or> (192 \<le> n \<and> n \<le> 214)
        \<or> (216 \<le> n \<and> n \<le> 246) \<or> (248 \<le> n \<and> n \<le> 255))"

definition isspace :: "char \<Rightarrow> bool" where
  "isspace c =
     (let n = ord c in (9 \<le> n \<and> n \<le> 13) \<or> (28 \<le> n \<and> n \<le> 32) \<or> n = 133 \<or> n = 160)"

text \<open>\<open>s.strip()\<close>: whitespace removed at both ends.\<close>

definition lstrip :: "string \<Rightarrow> string" where
  "lstrip s = dropWhile isspace s"

definition rstrip :: "string \<Rightarrow> string" where
  "rstrip s = rev (dropWhile isspace (rev s))"

definition strip :: "string \<Rightarrow> string" where
  "strip s = rstrip (lstrip s)"

text \<open>
  \<open>s.split(d)\<close> for a one-character separator: the pieces between the separators, in
  order; never an empty list (\<open>''''.split(d)\<close> is one empty piece). The first argument
  of \<open>split_acc\<close> is the piece being read.
\<close>

fun split_acc :: "char \<Rightarrow> string \<Rightarrow> string \<Rightarrow> string list" where
  "split_acc d cur [] = [cur]"
| "split_acc d cur (c # cs) =
     (if c = d then cur # split_acc d [] cs else split_acc d (cur @ [c]) cs)"

definition split :: "char \<Rightarrow> string \<Rightarrow> string list" where
  "split d s = split_acc d [] s"

text \<open>\<open>s.endswith(t)\<close> and \<open>t in s\<close> (substring test).\<close>

definition endswith :: "string \<Rightarrow> string \<Rightarrow> bool" where
  "endswith s t = (length t \<le> length s \<and> drop (length s - length t) s = t)"

definition startswith :: "string \<Rightarrow> string \<Rightarrow> bool" where
  "startswith s t = (take (length t) s = t)"

fun contains :: "string \<Rightarrow> string \<Rightarrow> bool" where
  "contains [] t = (t = [])"
| "contains (c # cs) t = (startswith (c # cs) t \<or> contains cs t)"

text \<open>\<open>sep.join(xs)\<close>.\<close>

fun join :: "string \<Rightarrow> string list \<Rightarrow> string" where
  "join sep [] = []"
| "join sep [x] = x"
| "join sep (x # y # ys) = x @ sep @ join sep (y # ys)"

section \<open>Errors\<close>

text \<open>
  The exceptions the program raises or lets through: \<open>requests\<close>' \<open>HTTPError\<close> from
  \<open>raise_for_status\<close> (with the status), a transport failure of a request, the
  \<open>ValueError\<close> of \<open>extract_playlist_id\<close>, a \<open>KeyError\<close> on a missing JSON key,
  \<open>FileNotFoundError\<close> on a missing local file, an error of the downloader that it
  does not swallow, and a failure of the storage client (the store unreachable, the
  credentials refused, the upload failed).
\<close>

datatype error =
    HTTPError nat
  | ConnectionError
  | ValueError string
  | KeyError string
  | FileNotFoundError string
  | DownloadError
  | S3UploadFailedError

section \<open>Configuration lookup\<close>

text \<open>
  The three sources of \<open>get_secret\<close>: the process environment, \<open>st.secrets\<close> and the
  file \<open>/etc/secrets/secrets.toml\<close>. A secrets store that cannot be read at all
  (\<open>FileNotFoundError\<close> for \<open>st.secrets\<close>; a missing or unparsable file, or no
  \<open>toml\<close> module, for the third) is \<open>None\<close>.
\<close>

record config =
  environ :: "string \<rightharpoonup> string"
  st_secrets :: "(string \<rightharpoonup> string) option"
  etc_secrets :: "(string \<rightharpoonup> string) option"

text \<open>Step 3 of \<open>get_secret\<close>: the file store, then the default.\<close>

definition from_etc_secrets :: "config \<Rightarrow> string \<Rightarrow> string option \<Rightarrow> string option" where
  "from_etc_secrets cfg key dflt =
     (case etc_secrets cfg of
        None \<Rightarrow> dflt
      | Some secrets_data \<Rightarrow>
          (case secrets_data key of Some v \<Rightarrow> Some v | None \<Rightarrow> dflt))"

text \<open>Step 2: \<open>st.secrets[key]\<close>; \<open>KeyError\<close> and \<open>FileNotFoundError\<close> pass on to step 3.\<close>

definition from_st_secrets :: "config \<Rightarrow> string \<Rightarrow> string option \<Rightarrow> string option" where
  "from_st_secrets cfg key dflt =
     (case st_secrets cfg of
        None \<Rightarrow> from_etc_secrets cfg key dflt
      | Some secrets \<Rightarrow>
          (case secrets key of
             Some v \<Rightarrow> Some v
           | None \<Rightarrow> from_etc_secrets cfg key dflt))"

text \<open>
  Step 1: \<open>env_value = os.getenv(key)\<close>, returned \<open>if env_value:\<close>, that is when it is
  set and not the empty string.
\<close>

definition get_secret :: "config \<Rightarrow> string \<Rightarrow> string option \<Rightarrow> string option" where
  "get_secret cfg key dflt =
     (case environ cfg key of
        Some env_value \<Rightarrow>
          (if env_value \<noteq> [] then Some env_value else from_st_secrets cfg key dflt)
      | None \<Rightarrow> from_st_secrets cfg key dflt)"

text \<open>The gate secret of \<open>check_access\<close>.\<close>

definition SECRET_CODE :: "config \<Rightarrow> string option" where
  "SECRET_CODE cfg = get_secret cfg ''ACCESS_CODE'' (Some ''mi_codigo_secreto_123'')"

text \<open>
  \<open>check_access\<close>: whether the page is shown. The caller is let through when the
  session is already authenticated, when the query parameter \<open>code\<close> equals the
  secret, or when the submitted form input does (\<open>None\<close>: parameter absent, form not
  submitted).
\<close>

definition check_access :: "config \<Rightarrow> bool \<Rightarrow> string option \<Rightarrow> string option \<Rightarrow> bool" where
  "check_access cfg authenticated access_code code_input =
     (if authenticated then True
      else if access_code = SECRET_CODE cfg then True
      else (case code_input of
              None \<Rightarrow> False
            | Some typed \<Rightarrow> Some typed = SECRET_CODE cfg))"

text \<open>
  The lookup as the specification words it: the sources in order, the first one that
  holds the key wins.
\<close>

definition first_match :: "config \<Rightarrow> string \<Rightarrow> string option \<Rightarrow> string option" where
  "first_match cfg key dflt =
     (case environ cfg key of
        Some v \<Rightarrow> Some v
      | None \<Rightarrow>
          (case Option.bind (st_secrets cfg) (\<lambda>m. m key) of
             Some v \<Rightarrow> Some v
           | None \<Rightarrow>
               (case Option.bind (etc_secrets cfg) (\<lambda>m. m key) of
                  Some v \<Rightarrow> Some v
                | None \<Rightarrow> dflt)))"

definition cfg_empty_env :: config where
  "cfg_empty_env =
     \<lparr> environ = [''ACCESS_CODE'' \<mapsto> ''''],
       st_secrets = Some [''ACCESS_CODE'' \<mapsto> ''local''],
       etc_secrets = None \<rparr>"

definition cfg_empty_local :: config where
  "cfg_empty_local =
     \<lparr> environ = [''B2_BUCKET'' \<mapsto> ''''],
       st_secrets = Some [''B2_BUCKET'' \<mapsto> ''''],
       etc_secrets = Some [''B2_BUCKET'' \<mapsto> ''songs''] \<rparr>"

definition cfg_file_only :: config where
  "cfg_file_only =
     \<lparr> environ = Map.empty,
       st_secrets = None,
       etc_secrets = Some [''B2_KEY_ID'' \<mapsto> ''k1''] \<rparr>"

section \<open>Playlist reference\<close>

text \<open>
  \<open>extract_playlist_id\<close>: the URL is stripped, cut at its first \<open>?\<close>, split at
  \<open>/\<close>, and the first part of 22 characters is returned; \<open>ValueError\<close> when the loop
  ends without one.
\<close>

fun first_part_22 :: "string list \<Rightarrow> error + string" where
  "first_part_22 [] = Inl (ValueError ''No se pudo extraer el ID de la playlist'')"
| "first_part_22 (part # parts) =
     (if length part = 22 then Inr part else first_part_22 parts)"

definition url_parts :: "string \<Rightarrow> string list" where
  "url_parts playlist_url =
     (case split CHR ''?'' (strip playlist_url) of
        [] \<Rightarrow> []
      | before_query # _ \<Rightarrow> split CHR ''/'' before_query)"

definition extract_playlist_id :: "string \<Rightarrow> error + string" where
  "extract_playlist_id playlist_url = first_part_22 (url_parts playlist_url)"

section \<open>The metadata API\<close>

text \<open>
  The JSON of the tracks endpoint, \<open>{items: [{track: {name, artists: [{name}]}}], next}\<close>.
  A key that \<open>dict.get\<close> reads with a default is an optional field (\<open>None\<close>: the key
  is missing). \<open>item_track\<close> is \<open>None\<close> for every value that fails \<open>if track:\<close>: a
  missing key, \<open>null\<close> or the empty object. \<open>page_next\<close> is \<open>None\<close> for a missing key
  or \<open>null\<close>.
\<close>

record artist_obj =
  artist_name :: "string option"

record track_obj =
  track_name :: "string option"
  track_artists :: "artist_obj list option"

record item_obj =
  item_track :: "track_obj option"

record page =
  page_items :: "item_obj list option"
  page_next :: "string option"

record 'a response =
  status_code :: nat
  json :: 'a

text \<open>\<open>d.get(k, dflt)\<close> on an optional field.\<close>

fun get_or :: "'a option \<Rightarrow> 'a \<Rightarrow> 'a" where
  "get_or None dflt = dflt"
| "get_or (Some v) dflt = v"

text \<open>\<open>response.raise_for_status()\<close> raises for the statuses 400 to 599.\<close>

definition raise_for_status :: "'a response \<Rightarrow> bool" where
  "raise_for_status r = (400 \<le> status_code r \<and> status_code r < 600)"

text \<open>
  The two endpoints. A request either fails in transport (\<open>Inl\<close>) or returns a response.
  The token endpoint is given the credentials \<open>client_id:client_secret\<close> (sent
  base64-encoded in the \<open>Authorization\<close> header) and answers with the JSON field
  \<open>access_token\<close>, if any; the tracks endpoint is given the \<open>Authorization\<close> header and
  the URL.
\<close>

record api =
  token_endpoint :: "string \<Rightarrow> error + string option response"
  tracks_endpoint :: "string \<Rightarrow> string \<Rightarrow> error + page response"

text \<open>\<open>f"{v}"\<close> for a value that may be \<open>None\<close>.\<close>

fun format_opt :: "string option \<Rightarrow> string" where
  "format_opt None = ''None''"
| "format_opt (Some v) = v"

definition get_spotify_access_token :: "config \<Rightarrow> api \<Rightarrow> error + string" where
  "get_spotify_access_token cfg a =
     (let client_id = get_secret cfg ''SPOTIFY_CLIENT_ID'' None;
          client_secret = get_secret cfg ''SPOTIFY_CLIENT_SECRET'' None;
          credentials = format_opt client_id @ '':'' @ format_opt client_secret
      in case token_endpoint a credentials of
           Inl e \<Rightarrow> Inl e
         | Inr response \<Rightarrow>
             if raise_for_status response then Inl (HTTPError (status_code response))
             else (case json response of
                     None \<Rightarrow> Inl (KeyError ''access_token'')
                   | Some access_token \<Rightarrow> Inr access_token))"

text \<open>The body of \<open>for item in data.get('items', [])\<close>: one item, appended or not.\<close>

definition add_item :: "item_obj \<Rightarrow> string list \<Rightarrow> string list" where
  "add_item item all_tracks =
     (case item_track item of
        None \<Rightarrow> all_tracks
      | Some track \<Rightarrow>
          (let name = get_or (track_name track) [];
               artists = map (\<lambda>a. get_or (artist_name a) []) (get_or (track_artists track) [])
           in if name \<noteq> [] \<and> artists \<noteq> []
              then all_tracks @ [name @ '' - '' @ join '', '' artists]
              else all_tracks))"

fun add_items :: "item_obj list \<Rightarrow> string list \<Rightarrow> string list" where
  "add_items [] all_tracks = all_tracks"
| "add_items (item # items) all_tracks = add_items items (add_item item all_tracks)"

text \<open>
  The loop \<open>while url:\<close>. It follows the server's \<open>next\<close> pointers with no bound, so it
  need not end: the result is \<open>None\<close> when it runs forever.
\<close>

partial_function (option) fetch_pages ::
  "(string \<Rightarrow> error + page response) \<Rightarrow> string option \<Rightarrow> string list
     \<Rightarrow> (error + string list) option" where
  "fetch_pages get url all_tracks =
     (case url of
        None \<Rightarrow> Some (Inr all_tracks)
      | Some u \<Rightarrow>
          if u = [] then Some (Inr all_tracks)
          else (case get u of
                  Inl e \<Rightarrow> Some (Inl e)
                | Inr response \<Rightarrow>
                    if raise_for_status response
                    then Some (Inl (HTTPError (status_code response)))
                    else (let data = json response
                          in fetch_pages get (page_next data)
                               (add_items (get_or (page_items data) []) all_tracks))))"

definition tracks_url :: "string \<Rightarrow> string" where
  "tracks_url playlist_id = ''https://api.spotify.com/v1/playlists/'' @ playlist_id @ ''/tracks''"

definition get_playlist_tracks :: "config \<Rightarrow> api \<Rightarrow> string \<Rightarrow> (error + string list) option" where
  "get_playlist_tracks cfg a playlist_url =
     (case get_spotify_access_token cfg a of
        Inl e \<Rightarrow> Some (Inl e)
      | Inr access_token \<Rightarrow>
          (case extract_playlist_id playlist_url of
             Inl e \<Rightarrow> Some (Inl e)
           | Inr playlist_id \<Rightarrow>
               fetch_pages (tracks_endpoint a (''Bearer '' @ access_token))
                 (Some (tracks_url playlist_id)) []))"

text \<open>
  What the specification says of resolution, in its words: an entry has a name and an
  artist list (empty when absent), the entries with both non-empty are kept, in order,
  each rendered as \<open>title - artist1, artist2\<close>.
\<close>

definition entry_name :: "item_obj \<Rightarrow> string" where
  "entry_name item = (case item_track item of None \<Rightarrow> [] | Some t \<Rightarrow> get_or (track_name t) [])"

definition entry_artists :: "item_obj \<Rightarrow> string list" where
  "entry_artists item =
     (case item_track item of
        None \<Rightarrow> []
      | Some t \<Rightarrow> map (\<lambda>a. get_or (artist_name a) []) (get_or (track_artists t) []))"

definition render :: "item_obj \<Rightarrow> string" where
  "render item = entry_name item @ '' - '' @ join '', '' (entry_artists item)"

definition spec_resolved :: "page list \<Rightarrow> string list" where
  "spec_resolved pages =
     map render
       (filter (\<lambda>item. entry_name item \<noteq> [] \<and> entry_artists item \<noteq> [])
          (concat (map (\<lambda>p. get_or (page_items p) []) pages)))"

text \<open>
  The server's answers along the \<open>next\<close> pointers from \<open>url\<close>: \<open>serves get url pages\<close>
  when the requests succeed with exactly \<open>pages\<close> and the last page has no further
  pointer; \<open>fails_after get url pages e\<close> when they succeed with \<open>pages\<close> and the next
  request fails with \<open>e\<close>.
\<close>

fun serves :: "(string \<Rightarrow> error + page response) \<Rightarrow> string option \<Rightarrow> page list \<Rightarrow> bool" where
  "serves get url [] = (url = None \<or> url = Some [])"
| "serves get url (p # ps) =
     (case url of
        None \<Rightarrow> False
      | Some u \<Rightarrow>
          u \<noteq> [] \<and>
          (case get u of
             Inl e \<Rightarrow> False
           | Inr r \<Rightarrow> \<not> raise_for_status r \<and> json r = p \<and> serves get (page_next p) ps))"

definition request_fails :: "(string \<Rightarrow> error + page response) \<Rightarrow> string \<Rightarrow> error \<Rightarrow> bool" where
  "request_fails get u e =
     (case get u of
        Inl e' \<Rightarrow> e = e'
      | Inr r \<Rightarrow> raise_for_status r \<and> e = HTTPError (status_code r))"

fun fails_after ::
  "(string \<Rightarrow> error + page response) \<Rightarrow> string option \<Rightarrow> page list \<Rightarrow> error \<Rightarrow> bool" where
  "fails_after get url [] e =
     (case url of None \<Rightarrow> False | Some u \<Rightarrow> u \<noteq> [] \<and> request_fails get u e)"
| "fails_after get url (p # ps) e =
     (case url of
        None \<Rightarrow> False
      | Some u \<Rightarrow>
          u \<noteq> [] \<and>
          (case get u of
             Inl e' \<Rightarrow> False
           | Inr r \<Rightarrow> \<not> raise_for_status r \<and> json r = p \<and> fails_after get (page_next p) ps e))"

section \<open>Paths\<close>

text \<open>\<open>os.path.join(a, b)\<close> and \<open>os.path.basename(p)\<close> of \<open>posixpath\<close>.\<close>

definition os_path_join :: "string \<Rightarrow> string \<Rightarrow> string" where
  "os_path_join a b =
     (if startswith b ''/'' then b
      else if a = [] \<or> endswith a ''/'' then a @ b
      else a @ ''/'' @ b)"

definition os_path_basename :: "string \<Rightarrow> string" where
  "os_path_basename p = rev (takeWhile (\<lambda>c. c \<noteq> CHR ''/'') (rev p))"

section \<open>The audio fetcher\<close>

text \<open>
  The downloader is external. \<open>ydl_download queries output_path quality\<close> is the
  directory \<open>output_path\<close> as \<open>os.listdir\<close> reads it once \<open>ydl.download(queries)\<close>
  has returned: its entries in listing order, each with the bytes of the file.
  \<open>tmp_dirs i\<close> is the directory \<open>tempfile.TemporaryDirectory()\<close> creates in iteration
  \<open>i\<close> of the download loop. The calls of the loop can also raise: \<open>download_raises i\<close>
  is the exception that leaves \<open>download_song\<close> in iteration \<open>i\<close>, if any (one the
  downloader does not swallow, or one of \<open>os.listdir\<close>), and \<open>upload_raises i\<close> the
  exception that leaves \<open>upload_song_to_b2\<close> in iteration \<open>i\<close>, if any (from
  \<open>get_b2_client\<close> or \<open>b2.upload_file\<close>); nothing is written then.
\<close>

record world =
  ydl_download :: "string list \<Rightarrow> string \<Rightarrow> nat \<Rightarrow> (string \<times> string) list"
  tmp_dirs :: "nat \<Rightarrow> string"
  download_raises :: "nat \<Rightarrow> error option"
  upload_raises :: "nat \<Rightarrow> error option"

text \<open>The loop \<open>for f in os.listdir(output_path)\<close> of \<open>download_song\<close>.\<close>

fun first_mp3 :: "string \<Rightarrow> string list \<Rightarrow> string option" where
  "first_mp3 output_path [] = None"
| "first_mp3 output_path (f # fs) =
     (if endswith f ''.mp3'' then Some (os_path_join output_path f)
      else first_mp3 output_path fs)"

text \<open>
  \<open>download_song\<close>: the directory after the download attempt, and the value returned.
\<close>

definition download_song ::
  "world \<Rightarrow> string \<Rightarrow> string \<Rightarrow> nat \<Rightarrow> (string \<times> string) list \<times> string option" where
  "download_song w song_name output_path quality =
     (let search_query = ''ytsearch1:'' @ song_name;
          listing = ydl_download w [search_query] output_path quality
      in (listing, first_mp3 output_path (map fst listing)))"

text \<open>The files of a directory by path: \<open>os.path.exists\<close> and the bytes read.\<close>

definition files_in :: "string \<Rightarrow> (string \<times> string) list \<Rightarrow> (string \<rightharpoonup> string)" where
  "files_in dir listing = map_of (map (\<lambda>(f, bytes). (os_path_join dir f, bytes)) listing)"

definition os_path_exists :: "(string \<rightharpoonup> string) \<Rightarrow> string \<Rightarrow> bool" where
  "os_path_exists files path = (files path \<noteq> None)"

section \<open>The library store\<close>

text \<open>
  The bucket is an external S3-compatible service, modelled as that interface
  documents it: the objects (key and bytes) in the order the service lists them, one
  object per key. \<open>PutObject\<close> replaces the bytes under an existing key and adds the
  object otherwise; one \<open>ListObjectsV2\<close> call returns the keys with the prefix, at most
  \<open>MaxKeys\<close> of them.
\<close>

type_synonym bucket = "(string \<times> string) list"

fun put_object :: "bucket \<Rightarrow> string \<Rightarrow> string \<Rightarrow> bucket" where
  "put_object [] key body = [(key, body)]"
| "put_object ((k, b) # objects) key body =
     (if k = key then (key, body) # objects else (k, b) # put_object objects key body)"

definition get_object :: "bucket \<Rightarrow> string \<Rightarrow> string option" where
  "get_object objects key = map_of objects key"

definition MaxKeys :: nat where
  "MaxKeys = 1000"

definition list_objects_v2 :: "bucket \<Rightarrow> string \<Rightarrow> string list" where
  "list_objects_v2 objects prefix =
     take MaxKeys (filter (\<lambda>key. startswith key prefix) (map fst objects))"

text \<open>
  \<open>upload_song_to_b2\<close>: the key, and the bucket after \<open>upload_file\<close>, which reads the
  local file.
\<close>

definition upload_song_to_b2 ::
  "(string \<rightharpoonup> string) \<Rightarrow> bucket \<Rightarrow> string \<Rightarrow> string \<Rightarrow> error + string \<times> bucket" where
  "upload_song_to_b2 files objects file_path playlist_name =
     (let filename = os_path_basename file_path;
          key = playlist_name @ ''/'' @ filename
      in case files file_path of
           None \<Rightarrow> Inl (FileNotFoundError file_path)
         | Some body \<Rightarrow> Inr (key, put_object objects key body))"

text \<open>\<open>list_songs_in_playlist\<close>: the loop over \<open>Contents\<close>.\<close>

record song =
  song_key :: string
  song_file :: string

fun songs_of :: "string list \<Rightarrow> song list \<Rightarrow> song list" where
  "songs_of [] songs = songs"
| "songs_of (key # keys) songs =
     songs_of keys
       (if endswith key ''.mp3''
        then songs @ [\<lparr> song_key = key, song_file = last (split CHR ''/'' key) \<rparr>]
        else songs)"

definition list_songs_in_playlist :: "bucket \<Rightarrow> string \<Rightarrow> song list" where
  "list_songs_in_playlist objects playlist_name =
     songs_of (list_objects_v2 objects (playlist_name @ ''/'')) []"

section \<open>The download handler\<close>

text \<open>
  What the page shows, in order: \<open>st.error\<close> with one of the three validation
  messages or with an exception, \<open>st.success\<close> with the number of songs found,
  \<open>status.text\<close> with position, total and song, \<open>progress_bar.progress\<close> with its
  value (the quotient, taken exactly), and the final \<open>st.success\<close> with the folder.
\<close>

datatype ui_event =
    Error_no_url
  | Error_no_folder
  | Error_bad_url
  | Error_exception error
  | Found nat
  | Status nat nat string
  | Progress rat
  | Saved string

text \<open>\<open>safe_name\<close> of the handler.\<close>

definition safe_name_of :: "string \<Rightarrow> string" where
  "safe_name_of folder_name =
     strip (filter (\<lambda>c. isalnum c \<or> c \<in> set '' -_'') folder_name)"

text \<open>
  The loop \<open>for i, song in enumerate(canciones)\<close> from index \<open>i\<close> on, \<open>n\<close> being
  \<open>len(canciones)\<close>. It returns the exception that ended it, if any, the bucket and
  what the page has shown. Nothing in the loop catches an exception: one raised by
  \<open>download_song\<close> or by \<open>upload_song_to_b2\<close> leaves the loop before the progress
  call of that iteration.
\<close>

fun download_loop ::
  "world \<Rightarrow> string \<Rightarrow> nat \<Rightarrow> nat \<Rightarrow> nat \<Rightarrow> string list \<Rightarrow> bucket \<Rightarrow> ui_event list
     \<Rightarrow> error option \<times> bucket \<times> ui_event list" where
  "download_loop w safe_name quality n i [] objects ui = (None, objects, ui)"
| "download_loop w safe_name quality n i (song # rest) objects ui =
     (let ui1 = ui @ [Status (i + 1) n song];
          tmp_dir = tmp_dirs w i
      in case download_raises w i of
           Some e \<Rightarrow> (Some e, objects, ui1)
         | None \<Rightarrow>
             (let (listing, downloaded) = download_song w song tmp_dir quality;
                  files = files_in tmp_dir listing
              in case (case downloaded of
                         None \<Rightarrow> Inr objects
                       | Some path \<Rightarrow>
                           if path \<noteq> [] \<and> os_path_exists files path
                           then (case upload_raises w i of
                                   Some e \<Rightarrow> Inl e
                                 | None \<Rightarrow>
                                     map_sum id snd
                                       (upload_song_to_b2 files objects path safe_name))
                           else Inr objects) of
                   Inl e \<Rightarrow> (Some e, objects, ui1)
                 | Inr objects' \<Rightarrow>
                     download_loop w safe_name quality n (i + 1) rest objects'
                       (ui1 @ [Progress (of_nat (i + 1) / of_nat n)])))"

text \<open>
  The handler of the download button. \<open>None\<close>: track resolution does not return.
\<close>

definition download_playlist ::
  "config \<Rightarrow> api \<Rightarrow> world \<Rightarrow> bucket \<Rightarrow> string \<Rightarrow> string \<Rightarrow> nat
     \<Rightarrow> (bucket \<times> ui_event list) option" where
  "download_playlist cfg a w objects playlist_url folder_name quality =
     (if playlist_url = [] then Some (objects, [Error_no_url])
      else if strip folder_name = [] then Some (objects, [Error_no_folder])
      else if \<not> contains playlist_url ''spotify.com/playlist'' then Some (objects, [Error_bad_url])
      else
        (let safe_name = safe_name_of folder_name
         in case get_playlist_tracks cfg a playlist_url of
              None \<Rightarrow> None
            | Some (Inl e) \<Rightarrow> Some (objects, [Error_exception e])
            | Some (Inr canciones) \<Rightarrow>
                (case download_loop w safe_name quality (length canciones) 0 canciones objects
                        [Found (length canciones), Progress 0] of
                   (None, objects', ui) \<Rightarrow> Some (objects', ui @ [Saved safe_name])
                 | (Some e, objects', ui) \<Rightarrow> Some (objects', ui @ [Error_exception e]))))"

text \<open>The value the progress bar shows at the end: that of its last call.\<close>

fun progress_values :: "ui_event list \<Rightarrow> rat list" where
  "progress_values [] = []"
| "progress_values (Progress x # ui) = x # progress_values ui"
| "progress_values (ev # ui) = progress_values ui"

definition final_progress :: "ui_event list \<Rightarrow> rat option" where
  "final_progress ui =
     (if progress_values ui = [] then None else Some (last (progress_values ui)))"

section \<open>The download loop as the specification describes it\<close>

text \<open>
  What the fetcher returns for the track at index \<open>i\<close>, the object the loop is to
  write for it (none when the fetcher returns nothing), the exception that ends the
  loop at that track, if any (one of the fetch, or one of the upload when there is a
  file to upload), the store after the tracks from index \<open>i\<close> on, and what the page
  shows for them: a status line and the progress \<open>(i + 1) / n\<close> per track.
\<close>

definition fetched :: "world \<Rightarrow> nat \<Rightarrow> nat \<Rightarrow> string \<Rightarrow> string option" where
  "fetched w quality i song = snd (download_song w song (tmp_dirs w i) quality)"

definition track_object ::
  "world \<Rightarrow> string \<Rightarrow> nat \<Rightarrow> nat \<Rightarrow> string \<Rightarrow> (string \<times> string) option" where
  "track_object w folder quality i song =
     (case fetched w quality i song of
        None \<Rightarrow> None
      | Some path \<Rightarrow>
          map_option (\<lambda>body. (folder @ ''/'' @ os_path_basename path, body))
            (files_in (tmp_dirs w i) (fst (download_song w song (tmp_dirs w i) quality)) path))"

definition track_fault :: "world \<Rightarrow> nat \<Rightarrow> nat \<Rightarrow> string \<Rightarrow> error option" where
  "track_fault w quality i song =
     (case download_raises w i of
        Some e \<Rightarrow> Some e
      | None \<Rightarrow>
          (case fetched w quality i song of
             None \<Rightarrow> None
           | Some path \<Rightarrow> upload_raises w i))"

fun spec_store :: "world \<Rightarrow> string \<Rightarrow> nat \<Rightarrow> nat \<Rightarrow> string list \<Rightarrow> bucket \<Rightarrow> bucket" where
  "spec_store w folder quality i [] objects = objects"
| "spec_store w folder quality i (song # rest) objects =
     spec_store w folder quality (i + 1) rest
       (case track_object w folder quality i song of
          None \<Rightarrow> objects
        | Some (key, body) \<Rightarrow> put_object objects key body)"

fun spec_events :: "nat \<Rightarrow> nat \<Rightarrow> string list \<Rightarrow> ui_event list" where
  "spec_events n i [] = []"
| "spec_events n i (song # rest) =
     Status (i + 1) n song # Progress (of_nat (i + 1) / of_nat n) # spec_events n (i + 1) rest"

section \<open>A concrete run\<close>

text \<open>
  A playlist of three pages, with entries that resolution keeps and entries it drops;
  a server that answers them, and one that fails on the second page; a downloader that
  finds the first and the third track and nothing for the second.
\<close>

definition ex_playlist_url :: string where
  "ex_playlist_url = ''https://open.spotify.com/playlist/37i9dQZF1DXcBWIGoYBM5M?si=0a1b''"


definition ex_playlist_id :: string where
  "ex_playlist_id = ''37i9dQZF1DXcBWIGoYBM5M''"

definition ex_cfg :: config where
  "ex_cfg =
     \<lparr> environ = [''SPOTIFY_CLIENT_ID'' \<mapsto> ''id'', ''SPOTIFY_CLIENT_SECRET'' \<mapsto> ''secret''],
       st_secrets = None,
       etc_secrets = None \<rparr>"

definition ex_item :: "string \<Rightarrow> string list \<Rightarrow> item_obj" where
  "ex_item name artists =
     \<lparr> item_track = Some \<lparr> track_name = Some name,
                            track_artists = Some (map (\<lambda>n. \<lparr> artist_name = Some n \<rparr>) artists) \<rparr> \<rparr>"

definition ex_page1 :: page where
  "ex_page1 =
     \<lparr> page_items = Some [ex_item ''Song A'' [''X'', ''Y''], \<lparr> item_track = None \<rparr>],
       page_next = Some ''https://api.spotify.com/v1/page2'' \<rparr>"

definition ex_page2 :: page where
  "ex_page2 =
     \<lparr> page_items = Some [ex_item [] [''Z''], ex_item ''Song B'' [''W'']],
       page_next = Some ''https://api.spotify.com/v1/page3'' \<rparr>"

definition ex_page3 :: page where
  "ex_page3 =
     \<lparr> page_items = Some [ex_item ''Ghost'' [], ex_item ''Song C'' [''Z'']],
       page_next = None \<rparr>"

definition ex_no_page :: page where
  "ex_no_page = \<lparr> page_items = None, page_next = None \<rparr>"

definition ex_get :: "nat \<Rightarrow> string \<Rightarrow> error + page response" where
  "ex_get status2 url =
     (if url = tracks_url ex_playlist_id then Inr \<lparr> status_code = 200, json = ex_page1 \<rparr>
      else if url = ''https://api.spotify.com/v1/page2''
        then Inr \<lparr> status_code = status2, json = ex_page2 \<rparr>
      else if url = ''https://api.spotify.com/v1/page3''
        then Inr \<lparr> status_code = 200, json = ex_page3 \<rparr>
      else Inr \<lparr> status_code = 404, json = ex_no_page \<rparr>)"

definition ex_token :: "string \<Rightarrow> error + string option response" where
  "ex_token credentials =
     (if credentials = ''id:secret'' then Inr \<lparr> status_code = 200, json = Some ''tok'' \<rparr>
      else Inr \<lparr> status_code = 401, json = None \<rparr>)"

definition ex_api :: api where
  "ex_api = \<lparr> token_endpoint = ex_token, tracks_endpoint = (\<lambda>auth. ex_get 200) \<rparr>"

definition ex_api_broken :: api where
  "ex_api_broken = \<lparr> token_endpoint = ex_token, tracks_endpoint = (\<lambda>auth. ex_get 500) \<rparr>"

definition ex_world :: world where
  "ex_world =
     \<lparr> ydl_download = (\<lambda>queries output_path quality.
         if queries = [''ytsearch1:Song A - X, Y'']
           then [(''Song A.webm'', ''raw''), (''Song A.mp3'', ''AAA'')]
         else if queries = [''ytsearch1:Song C - Z''] then [(''Song C.mp3'', ''CCC'')]
         else []),
       tmp_dirs = (\<lambda>i. ''/tmp/tmp'' @ replicate i CHR ''x''),
       download_raises = (\<lambda>i. None),
       upload_raises = (\<lambda>i. None) \<rparr>"

text \<open>The same, with a store that refuses the upload in the third iteration.\<close>

definition ex_world_upload_fails :: world where
  "ex_world_upload_fails =
     ex_world \<lparr> upload_raises := (\<lambda>i. if i = 2 then Some S3UploadFailedError else None) \<rparr>"

definition ex_tracks :: "string list" where
  "ex_tracks = [''Song A - X, Y'', ''Song B - W'', ''Song C - Z'']"

text \<open>
  A bucket with more objects under one folder than one listing call returns: the keys
  \<open>mix/.mp3\<close>, \<open>mix/a.mp3\<close>, \<open>mix/aa.mp3\<close> and so on, 1001 of them.
\<close>

definition ex_big_bucket :: bucket where
  "ex_big_bucket = map (\<lambda>i. (''mix/'' @ replicate i CHR ''a'' @ ''.mp3'', ''data'')) [0..<1001]"

section \<open>Configuration lookup: results\<close>

lemma get_secret_env:
  "environ cfg key = Some v \<Longrightarrow> v \<noteq> [] \<Longrightarrow> get_secret cfg key d = Some v"
  by (simp add: get_secret_def)

lemma get_secret_no_env:
  "environ cfg key = None \<or> environ cfg key = Some [] \<Longrightarrow>
   get_secret cfg key d = from_st_secrets cfg key d"
  by (auto simp: get_secret_def)

text \<open>
  C9, as stated, fails: with \<open>ACCESS_CODE\<close> set to the empty string in the environment
  and to \<open>local\<close> in \<open>st.secrets\<close>, the first source holding the key is the
  environment, and the lookup returns the value of the second.
\<close>

theorem C9_first_match_counterexample:
  "get_secret cfg_empty_env ''ACCESS_CODE'' None \<noteq> first_match cfg_empty_env ''ACCESS_CODE'' None"
  by (simp add: get_secret_def from_st_secrets_def first_match_def cfg_empty_env_def)

text \<open>
  C9, amended: for every key the lookup consults the environment, then \<open>st.secrets\<close>,
  then the secrets file, and returns the first match, where the environment matches
  only with a non-empty value; with no match it returns the default, so that the gate
  secret is \<open>mi_codigo_secreto_123\<close> when no source provides \<open>ACCESS_CODE\<close>.
\<close>

theorem C9_get_secret_order:
  "get_secret cfg key d =
     (case environ cfg key of
        Some v \<Rightarrow> if v \<noteq> [] then Some v
                  else first_match (cfg\<lparr>environ := Map.empty\<rparr>) key d
      | None \<Rightarrow> first_match cfg key d)
   \<and> ((environ cfg ''ACCESS_CODE'' = None \<or> environ cfg ''ACCESS_CODE'' = Some [])
        \<and> Option.bind (st_secrets cfg) (\<lambda>m. m ''ACCESS_CODE'') = None
        \<and> Option.bind (etc_secrets cfg) (\<lambda>m. m ''ACCESS_CODE'') = None
      \<longrightarrow> SECRET_CODE cfg = Some ''mi_codigo_secreto_123''
          \<and> check_access cfg False (Some ''mi_codigo_secreto_123'') None
          \<and> check_access cfg False None (Some ''mi_codigo_secreto_123''))"
  by (auto simp: get_secret_def from_st_secrets_def from_etc_secrets_def first_match_def
      SECRET_CODE_def check_access_def split: option.splits)

theorem C9_get_secret_order_witness:
  "get_secret cfg_file_only ''B2_KEY_ID'' None = Some ''k1''
   \<and> SECRET_CODE cfg_file_only = Some ''mi_codigo_secreto_123''
   \<and> check_access cfg_file_only False (Some ''mi_codigo_secreto_123'') None"
  using C9_get_secret_order [of cfg_file_only "''B2_KEY_ID''" None]
  by (simp add: cfg_file_only_def first_match_def)

text \<open>
  C10: an environment variable set to the empty string is treated as absent (the
  lookup goes on to \<open>st.secrets\<close> exactly as with the variable unset), whereas an
  empty string found in \<open>st.secrets\<close> is returned as it is.
\<close>

theorem C10_empty_env_falls_through:
  "(environ cfg key = Some [] \<longrightarrow>
      get_secret cfg key d = get_secret (cfg\<lparr>environ := (environ cfg)(key := None)\<rparr>) key d
      \<and> get_secret cfg key d = from_st_secrets cfg key d)
   \<and> ((environ cfg key = None \<or> environ cfg key = Some []) \<and> st_secrets cfg = Some m
        \<and> m key = Some [] \<longrightarrow> get_secret cfg key d = Some [])"
  by (auto simp: get_secret_def from_st_secrets_def from_etc_secrets_def split: option.splits)

theorem C10_empty_env_falls_through_witness:
  "get_secret cfg_empty_local ''B2_BUCKET'' None = Some []
   \<and> get_secret cfg_empty_local ''B2_BUCKET'' None
       = from_st_secrets cfg_empty_local ''B2_BUCKET'' None"
  using C10_empty_env_falls_through
    [of cfg_empty_local "''B2_BUCKET''" None "[''B2_BUCKET'' \<mapsto> '''']"]
  by (simp add: cfg_empty_local_def get_secret_def from_st_secrets_def)

section \<open>Playlist reference: results\<close>



lemma split_acc_nonempty: "split_acc d cur xs \<noteq> []"
  by (induction xs arbitrary: cur) auto

lemma split_acc_snoc_sep: "split_acc d cur (xs @ [d]) = split_acc d cur xs @ [[]]"
  by (induction xs arbitrary: cur) auto




lemma first_part_22_Inr:
  "first_part_22 parts = Inr ident \<Longrightarrow>
   \<exists>pre post. parts = pre @ ident # post \<and> length ident = 22 \<and> (\<forall>p \<in> set pre. length p \<noteq> 22)"
proof (induction parts)
  case Nil
  then show ?case by simp
next
  case (Cons a parts)
  show ?case
  proof (cases "length a = 22")
    case True
    with Cons.prems have "a = ident" by simp
    with True show ?thesis by (intro exI[of _ "[]"] exI[of _ parts]) simp
  next
    case False
    with Cons obtain pre post where "parts = pre @ ident # post" "length ident = 22"
      "\<forall>p \<in> set pre. length p \<noteq> 22" by auto
    with False show ?thesis by (intro exI[of _ "a # pre"] exI[of _ post]) simp
  qed
qed






lemma set_lstrip: "set (lstrip xs) \<subseteq> set xs"
  by (simp add: lstrip_def set_dropWhileD subsetI)







section \<open>Track resolution: results\<close>

lemma add_item_spec:
  "add_item item acc =
     (if entry_name item \<noteq> [] \<and> entry_artists item \<noteq> [] then acc @ [render item] else acc)"
  by (simp add: add_item_def entry_name_def entry_artists_def render_def Let_def
      split: option.splits)

lemma add_items_spec:
  "add_items items acc =
     acc @ map render (filter (\<lambda>item. entry_name item \<noteq> [] \<and> entry_artists item \<noteq> []) items)"
  by (induction items arbitrary: acc) (simp_all add: add_item_spec)

lemma spec_resolved_Cons:
  "spec_resolved (p # ps) = add_items (get_or (page_items p) []) [] @ spec_resolved ps"
  by (simp add: spec_resolved_def add_items_spec)

lemma fetch_pages_serves:
  "serves get url pages \<Longrightarrow> fetch_pages get url acc = Some (Inr (acc @ spec_resolved pages))"
proof (induction pages arbitrary: url acc)
  case Nil
  then show ?case
    by (subst fetch_pages.simps) (auto simp: spec_resolved_def)
next
  case (Cons p ps)
  from Cons.prems obtain u r where u: "url = Some u" "u \<noteq> []"
    and r: "get u = Inr r" "\<not> raise_for_status r" "json r = p"
    and rest: "serves get (page_next p) ps"
    by (auto split: option.splits sum.splits)
  have "fetch_pages get url acc
          = fetch_pages get (page_next p) (add_items (get_or (page_items p) []) acc)"
    using u r by (subst fetch_pages.simps) (simp add: Let_def)
  also have "\<dots> = Some (Inr (add_items (get_or (page_items p) []) acc @ spec_resolved ps))"
    by (rule Cons.IH [OF rest])
  finally show ?case
    by (simp add: add_items_spec spec_resolved_def)
qed

lemma fetch_pages_fails:
  "fails_after get url pages e \<Longrightarrow> fetch_pages get url acc = Some (Inl e)"
proof (induction pages arbitrary: url acc)
  case Nil
  then show ?case
    by (subst fetch_pages.simps)
      (auto simp: request_fails_def split: option.splits sum.splits)
next
  case (Cons p ps)
  from Cons.prems obtain u r where u: "url = Some u" "u \<noteq> []"
    and r: "get u = Inr r" "\<not> raise_for_status r" "json r = p"
    and rest: "fails_after get (page_next p) ps e"
    by (auto split: option.splits sum.splits)
  have "fetch_pages get url acc
          = fetch_pages get (page_next p) (add_items (get_or (page_items p) []) acc)"
    using u r by (subst fetch_pages.simps) (simp add: Let_def)
  also have "\<dots> = Some (Inl e)"
    by (rule Cons.IH [OF rest])
  finally show ?case .
qed

lemma get_playlist_tracks_serves:
  assumes "get_spotify_access_token cfg a = Inr access_token"
    and "extract_playlist_id playlist_url = Inr playlist_id"
    and "serves (tracks_endpoint a (''Bearer '' @ access_token)) (Some (tracks_url playlist_id)) pages"
  shows "get_playlist_tracks cfg a playlist_url = Some (Inr (spec_resolved pages))"
  using assms fetch_pages_serves [OF assms(3), of "[]"]
  by (simp add: get_playlist_tracks_def)

lemma get_playlist_tracks_fails:
  assumes "get_spotify_access_token cfg a = Inr access_token"
    and "extract_playlist_id playlist_url = Inr playlist_id"
    and "fails_after (tracks_endpoint a (''Bearer '' @ access_token)) (Some (tracks_url playlist_id)) pages e"
  shows "get_playlist_tracks cfg a playlist_url = Some (Inl e)"
  using assms fetch_pages_fails [OF assms(3), of "[]"]
  by (simp add: get_playlist_tracks_def)

lemma download_playlist_resolution_error:
  assumes "get_playlist_tracks cfg a playlist_url = Some (Inl e)"
  shows "download_playlist cfg a w objects playlist_url folder_name quality =
     Some (objects,
       [if playlist_url = [] then Error_no_url
        else if strip folder_name = [] then Error_no_folder
        else if \<not> contains playlist_url ''spotify.com/playlist'' then Error_bad_url
        else Error_exception e])"
  using assms by (simp add: download_playlist_def)

subsection \<open>The concrete run resolves\<close>

lemma spec_resolved_ex: "spec_resolved [ex_page1, ex_page2, ex_page3] = ex_tracks"
  by (simp add: spec_resolved_def ex_page1_def ex_page2_def ex_page3_def ex_item_def
      render_def entry_name_def entry_artists_def ex_tracks_def)

lemma ex_token_ok: "get_spotify_access_token ex_cfg ex_api = Inr ''tok''"
  by (simp add: get_spotify_access_token_def ex_cfg_def ex_api_def ex_token_def
      get_secret_def raise_for_status_def)

lemma ex_token_ok_broken: "get_spotify_access_token ex_cfg ex_api_broken = Inr ''tok''"
  by (simp add: get_spotify_access_token_def ex_cfg_def ex_api_broken_def ex_token_def
      get_secret_def raise_for_status_def)

lemma ex_id: "extract_playlist_id ex_playlist_url = Inr ex_playlist_id"
  by (simp add: extract_playlist_id_def url_parts_def split_def strip_def lstrip_def rstrip_def
      isspace_def ord_def ex_playlist_url_def ex_playlist_id_def)

lemma ex_serves:
  "serves (tracks_endpoint ex_api (''Bearer '' @ ''tok'')) (Some (tracks_url ex_playlist_id))
     [ex_page1, ex_page2, ex_page3]"
  by (simp add: ex_api_def ex_get_def tracks_url_def ex_playlist_id_def raise_for_status_def
      ex_page1_def ex_page2_def ex_page3_def)

lemma ex_fails:
  "fails_after (tracks_endpoint ex_api_broken (''Bearer '' @ ''tok''))
     (Some (tracks_url ex_playlist_id)) [ex_page1] (HTTPError 500)"
  by (simp add: ex_api_broken_def ex_get_def tracks_url_def ex_playlist_id_def
      raise_for_status_def request_fails_def ex_page1_def)

lemma ex_guards:
  "ex_playlist_url \<noteq> [] \<and> contains ex_playlist_url ''spotify.com/playlist''"
  by (simp add: ex_playlist_url_def startswith_def)

text \<open>
  C2: when the tracks endpoint answers the requests along the \<open>next\<close> pointers with
  the pages \<open>pages\<close>, resolution returns, in the order of the pages and of the entries
  in each, exactly the entries whose name and artist list are both non-empty, each
  rendered as the name, \<open>'' - ''\<close>, and the artist names joined by \<open>'', ''\<close>; nothing else
  is dropped.
\<close>

theorem C2_resolved_tracks:
  assumes "get_spotify_access_token cfg a = Inr access_token"
    and "extract_playlist_id playlist_url = Inr playlist_id"
    and "serves (tracks_endpoint a (''Bearer '' @ access_token)) (Some (tracks_url playlist_id)) pages"
  shows "get_playlist_tracks cfg a playlist_url
           = Some (Inr (map (\<lambda>item. entry_name item @ '' - '' @ join '', '' (entry_artists item))
                          (filter (\<lambda>item. entry_name item \<noteq> [] \<and> entry_artists item \<noteq> [])
                             (concat (map (\<lambda>p. get_or (page_items p) []) pages)))))"
proof -
  have "get_playlist_tracks cfg a playlist_url = Some (Inr (spec_resolved pages))"
    using assms by (rule get_playlist_tracks_serves)
  then show ?thesis
    by (simp add: spec_resolved_def render_def [abs_def])
qed

theorem C2_resolved_tracks_witness:
  "get_playlist_tracks ex_cfg ex_api ex_playlist_url
     = Some (Inr [''Song A - X, Y'', ''Song B - W'', ''Song C - Z''])"
proof -
  have "map (\<lambda>item. entry_name item @ '' - '' @ join '', '' (entry_artists item))
          (filter (\<lambda>item. entry_name item \<noteq> [] \<and> entry_artists item \<noteq> [])
             (concat (map (\<lambda>p. get_or (page_items p) []) [ex_page1, ex_page2, ex_page3])))
        = [''Song A - X, Y'', ''Song B - W'', ''Song C - Z'']"
    by (simp add: ex_page1_def ex_page2_def ex_page3_def ex_item_def entry_name_def
        entry_artists_def)
  then show ?thesis
    using C2_resolved_tracks [OF ex_token_ok ex_id ex_serves] by simp
qed

text \<open>
  C4: when a page request fails during resolution, in transport or with a status that
  \<open>raise_for_status\<close> rejects, after any number of pages that succeeded, resolution
  fails with that error, and the handler shows that one error and leaves the bucket
  as it was: nothing is written.
\<close>

theorem C4_resolution_failure_aborts:
  assumes "playlist_url \<noteq> []" and "strip folder_name \<noteq> []"
    and "contains playlist_url ''spotify.com/playlist''"
    and "get_spotify_access_token cfg a = Inr access_token"
    and "extract_playlist_id playlist_url = Inr playlist_id"
    and "fails_after (tracks_endpoint a (''Bearer '' @ access_token))
           (Some (tracks_url playlist_id)) pages e"
  shows "get_playlist_tracks cfg a playlist_url = Some (Inl e)
         \<and> download_playlist cfg a w objects playlist_url folder_name quality
             = Some (objects, [Error_exception e])"
proof -
  have res: "get_playlist_tracks cfg a playlist_url = Some (Inl e)"
    using assms(4-6) by (rule get_playlist_tracks_fails)
  then show ?thesis
    using assms(1-3) download_playlist_resolution_error [OF res] by simp
qed

theorem C4_resolution_failure_aborts_witness:
  "download_playlist ex_cfg ex_api_broken ex_world [(''mix/old.mp3'', ''OLD'')]
     ex_playlist_url ''mix'' 192
   = Some ([(''mix/old.mp3'', ''OLD'')], [Error_exception (HTTPError 500)])"
proof -
  have folder: "strip ''mix'' \<noteq> []"
    by (simp add: strip_def lstrip_def rstrip_def isspace_def ord_def)
  show ?thesis
    using C4_resolution_failure_aborts [OF _ folder _ ex_token_ok_broken ex_id ex_fails,
        of ex_world "[(''mix/old.mp3'', ''OLD'')]" 192] ex_guards
    by simp
qed

section \<open>The audio fetcher and the download loop: results\<close>

lemma endswith_nonempty: "endswith f ''.mp3'' \<Longrightarrow> f \<noteq> []"
  by (auto simp: endswith_def)

lemma os_path_join_nonempty: "f \<noteq> [] \<Longrightarrow> os_path_join dir f \<noteq> []"
  by (simp add: os_path_join_def)

lemma first_mp3_None: "first_mp3 dir names = None \<longleftrightarrow> (\<forall>f \<in> set names. \<not> endswith f ''.mp3'')"
  by (induction names) auto

lemma first_mp3_Some:
  "first_mp3 dir names = Some path \<longleftrightarrow>
     (\<exists>pre f post. names = pre @ f # post \<and> endswith f ''.mp3''
        \<and> (\<forall>g \<in> set pre. \<not> endswith g ''.mp3'') \<and> path = os_path_join dir f)"
proof (induction names)
  case Nil
  then show ?case by simp
next
  case (Cons a names)
  show ?case
  proof (cases "endswith a ''.mp3''")
    case True
    have "(\<exists>pre f post. a # names = pre @ f # post \<and> endswith f ''.mp3''
        \<and> (\<forall>g \<in> set pre. \<not> endswith g ''.mp3'') \<and> path = os_path_join dir f)
        \<longleftrightarrow> path = os_path_join dir a" (is "?L \<longleftrightarrow> ?R")
    proof
      assume ?L
      then obtain pre f post where h: "a # names = pre @ f # post" "endswith f ''.mp3''"
        "\<forall>g \<in> set pre. \<not> endswith g ''.mp3''" "path = os_path_join dir f" by blast
      with True have "pre = []" by (cases pre) auto
      with h show ?R by simp
    next
      assume ?R
      with True show ?L by (intro exI[of _ "[]"] exI[of _ a] exI[of _ names]) simp
    qed
    with True show ?thesis by auto
  next
    case False
    have "(\<exists>pre f post. a # names = pre @ f # post \<and> endswith f ''.mp3''
        \<and> (\<forall>g \<in> set pre. \<not> endswith g ''.mp3'') \<and> path = os_path_join dir f)
        \<longleftrightarrow> (\<exists>pre f post. names = pre @ f # post \<and> endswith f ''.mp3''
        \<and> (\<forall>g \<in> set pre. \<not> endswith g ''.mp3'') \<and> path = os_path_join dir f)" (is "?L \<longleftrightarrow> ?R")
    proof
      assume ?L
      then obtain pre f post where h: "a # names = pre @ f # post" "endswith f ''.mp3''"
        "\<forall>g \<in> set pre. \<not> endswith g ''.mp3''" "path = os_path_join dir f" by blast
      with False obtain pre' where "pre = a # pre'" by (cases pre) auto
      with h show ?R by auto
    next
      assume ?R
      then obtain pre f post where h: "names = pre @ f # post" "endswith f ''.mp3''"
        "\<forall>g \<in> set pre. \<not> endswith g ''.mp3''" "path = os_path_join dir f" by blast
      with False show ?L by (intro exI[of _ "a # pre"] exI[of _ f] exI[of _ post]) simp
    qed
    with False Cons show ?thesis by simp
  qed
qed

lemma first_mp3_in:
  "first_mp3 dir names = Some path \<Longrightarrow>
     \<exists>f \<in> set names. endswith f ''.mp3'' \<and> path = os_path_join dir f"
  by (induction names) (auto split: if_splits)

lemma files_in_member:
  "f \<in> fst ` set listing \<Longrightarrow> files_in dir listing (os_path_join dir f) \<noteq> None"
proof -
  assume "f \<in> fst ` set listing"
  then have "os_path_join dir f \<in> fst ` set (map (\<lambda>(f, bytes). (os_path_join dir f, bytes)) listing)"
    by force
  then show ?thesis
    unfolding files_in_def by (simp add: map_of_eq_None_iff)
qed

lemma download_song_usable:
  assumes "download_song w song dir quality = (listing, Some path)"
  shows "path \<noteq> [] \<and> os_path_exists (files_in dir listing) path"
proof -
  from assms have "first_mp3 dir (map fst listing) = Some path"
    by (auto simp: download_song_def Let_def)
  then obtain f where f: "f \<in> set (map fst listing)" "endswith f ''.mp3''"
    "path = os_path_join dir f"
    using first_mp3_in by blast
  then show ?thesis
    using files_in_member [of f listing dir] endswith_nonempty os_path_join_nonempty
    by (auto simp: os_path_exists_def)
qed

lemma track_object_None:
  "track_object w folder quality i song = None \<longleftrightarrow> fetched w quality i song = None"
proof (cases "fetched w quality i song")
  case None
  then show ?thesis by (simp add: track_object_def)
next
  case (Some path)
  then have "download_song w song (tmp_dirs w i) quality
               = (fst (download_song w song (tmp_dirs w i) quality), Some path)"
    by (simp add: fetched_def prod_eq_iff)
  from download_song_usable [OF this] Some show ?thesis
    by (auto simp: track_object_def os_path_exists_def)
qed

lemma track_fault_None:
  "track_fault w quality i song = None \<longleftrightarrow>
     download_raises w i = None
     \<and> (fetched w quality i song = None \<or> upload_raises w i = None)"
  by (auto simp: track_fault_def split: option.splits)

lemma download_loop_step:
  assumes "track_fault w quality i song = None"
  shows "download_loop w folder quality n i (song # rest) objects ui =
     download_loop w folder quality n (i + 1) rest
       (case track_object w folder quality i song of
          None \<Rightarrow> objects
        | Some (key, body) \<Rightarrow> put_object objects key body)
       (ui @ [Status (i + 1) n song, Progress (of_nat (i + 1) / of_nat n)])"
proof (cases "fetched w quality i song")
  case None
  define listing where "listing = fst (download_song w song (tmp_dirs w i) quality)"
  have dr: "download_raises w i = None"
    using assms by (simp add: track_fault_None)
  have "download_song w song (tmp_dirs w i) quality = (listing, None)"
    using None by (simp add: fetched_def listing_def prod_eq_iff)
  with None dr show ?thesis
    by (simp add: track_object_def Let_def)
next
  case (Some path)
  define listing where "listing = fst (download_song w song (tmp_dirs w i) quality)"
  have dr: "download_raises w i = None" and ur: "upload_raises w i = None"
    using assms Some by (simp_all add: track_fault_None)
  have ds: "download_song w song (tmp_dirs w i) quality = (listing, Some path)"
    using Some by (simp add: fetched_def listing_def prod_eq_iff)
  from download_song_usable [OF ds] obtain body where
    ok: "path \<noteq> []" "os_path_exists (files_in (tmp_dirs w i) listing) path"
    and body: "files_in (tmp_dirs w i) listing path = Some body"
    by (auto simp: os_path_exists_def)
  have "track_object w folder quality i song = Some (folder @ ''/'' @ os_path_basename path, body)"
    using Some ds body by (simp add: track_object_def)
  then show ?thesis
    using ds ok body dr ur by (simp add: upload_song_to_b2_def Let_def)
qed

lemma download_loop_step_fault:
  assumes "track_fault w quality i song = Some e"
  shows "download_loop w folder quality n i (song # rest) objects ui =
     (Some e, objects, ui @ [Status (i + 1) n song])"
proof (cases "download_raises w i")
  case (Some e')
  with assms have "e' = e" by (simp add: track_fault_def)
  with Some show ?thesis by (simp add: Let_def)
next
  case None
  with assms obtain path where path: "fetched w quality i song = Some path"
    and ur: "upload_raises w i = Some e"
    by (auto simp: track_fault_def split: option.splits)
  define listing where "listing = fst (download_song w song (tmp_dirs w i) quality)"
  have ds: "download_song w song (tmp_dirs w i) quality = (listing, Some path)"
    using path by (simp add: fetched_def listing_def prod_eq_iff)
  from download_song_usable [OF ds] have
    "path \<noteq> []" "os_path_exists (files_in (tmp_dirs w i) listing) path"
    by simp_all
  then show ?thesis
    using None ds ur by (simp add: Let_def)
qed

lemma download_loop_spec:
  assumes "\<forall>j < length songs. track_fault w quality (i + j) (songs ! j) = None"
  shows "download_loop w folder quality n i songs objects ui =
     (None, spec_store w folder quality i songs objects, ui @ spec_events n i songs)"
  using assms
proof (induction songs arbitrary: i objects ui)
  case Nil
  then show ?case by simp
next
  case (Cons song rest)
  from Cons.prems have here: "track_fault w quality i song = None"
    by force
  have later: "\<forall>j < length rest. track_fault w quality (i + 1 + j) (rest ! j) = None"
  proof (intro allI impI)
    fix j assume "j < length rest"
    with Cons.prems have "track_fault w quality (i + Suc j) ((song # rest) ! Suc j) = None"
      by (metis Suc_less_eq length_Cons)
    then show "track_fault w quality (i + 1 + j) (rest ! j) = None" by simp
  qed
  show ?case
    by (simp only: download_loop_step [OF here] Cons.IH [OF later] spec_store.simps
        spec_events.simps) simp
qed

lemma download_loop_fault:
  assumes "k < length songs"
    and "track_fault w quality (i + k) (songs ! k) = Some e"
    and "\<forall>j < k. track_fault w quality (i + j) (songs ! j) = None"
  shows "download_loop w folder quality n i songs objects ui =
     (Some e, spec_store w folder quality i (take k songs) objects,
      ui @ spec_events n i (take k songs) @ [Status (i + k + 1) n (songs ! k)])"
  using assms
proof (induction songs arbitrary: i k objects ui)
  case Nil
  then show ?case by simp
next
  case (Cons song rest)
  show ?case
  proof (cases k)
    case 0
    with Cons.prems have "track_fault w quality i song = Some e" by simp
    from download_loop_step_fault [OF this] 0 show ?thesis by simp
  next
    case (Suc k')
    with Cons.prems have here: "track_fault w quality i song = None"
      by force
    have k': "k' < length rest"
      using Cons.prems(1) Suc by simp
    have at: "track_fault w quality (i + 1 + k') (rest ! k') = Some e"
      using Cons.prems(2) Suc by simp
    have before: "\<forall>j < k'. track_fault w quality (i + 1 + j) (rest ! j) = None"
    proof (intro allI impI)
      fix j assume "j < k'"
      with Cons.prems(3) Suc have
        "track_fault w quality (i + Suc j) ((song # rest) ! Suc j) = None"
        by (metis Suc_less_eq)
      then show "track_fault w quality (i + 1 + j) (rest ! j) = None" by simp
    qed
    show ?thesis
      by (simp only: download_loop_step [OF here] Cons.IH [OF k' at before] Suc take_Suc_Cons
          spec_store.simps spec_events.simps) simp
  qed
qed

lemma progress_values_append:
  "progress_values (ui @ ui') = progress_values ui @ progress_values ui'"
  by (induction ui rule: progress_values.induct) simp_all

lemma final_progress_snoc:
  "final_progress (ui @ [Progress x]) = Some x"
  by (simp add: final_progress_def progress_values_append)

lemma spec_events_last:
  "songs \<noteq> [] \<Longrightarrow>
   \<exists>evs. spec_events n i songs = evs @ [Progress (of_nat (i + length songs) / of_nat n)]"
proof (induction songs arbitrary: i)
  case Nil
  then show ?case by simp
next
  case (Cons song rest)
  show ?case
  proof (cases rest)
    case Nil
    then show ?thesis by simp
  next
    case (Cons s' rest')
    with Cons.IH [of "i + 1"] obtain evs where
      "spec_events n (i + 1) rest = evs @ [Progress (of_nat (i + 1 + length rest) / of_nat n)]"
      by auto
    then show ?thesis
      by (intro exI[of _ "Status (i + 1) n song # Progress (of_nat (i + 1) / of_nat n) # evs"])
        simp
  qed
qed

lemma final_progress_spec_events:
  assumes "songs \<noteq> []"
  shows "final_progress (ui @ spec_events n i songs) = Some (of_nat (i + length songs) / of_nat n)"
proof -
  from spec_events_last [OF assms, of n i] obtain evs where
    "spec_events n i songs = evs @ [Progress (of_nat (i + length songs) / of_nat n)]" ..
  then show ?thesis
    using final_progress_snoc [of "ui @ evs"] by simp
qed

subsection \<open>The concrete run downloads\<close>

lemma ex_track_objects:
  "track_object ex_world folder 192 0 ''Song A - X, Y'' = Some (folder @ ''/Song A.mp3'', ''AAA'')"
  "track_object ex_world folder 192 (Suc 0) ''Song B - W'' = None"
  "track_object ex_world folder 192 (Suc (Suc 0)) ''Song C - Z''
     = Some (folder @ ''/Song C.mp3'', ''CCC'')"
  by (simp_all add: track_object_def fetched_def download_song_def ex_world_def endswith_def
      os_path_join_def startswith_def files_in_def os_path_basename_def)

lemma ex_fetched:
  "fetched ex_world 192 0 ''Song A - X, Y'' = Some ''/tmp/tmp/Song A.mp3''"
  "fetched ex_world 192 (Suc 0) ''Song B - W'' = None"
  "fetched ex_world 192 (Suc (Suc 0)) ''Song C - Z'' = Some ''/tmp/tmpxx/Song C.mp3''"
  by (simp_all add: fetched_def download_song_def ex_world_def endswith_def
      os_path_join_def startswith_def)

lemma ex_store:
  "spec_store ex_world folder 192 0 ex_tracks objects
     = put_object (put_object objects (folder @ ''/Song A.mp3'') ''AAA'')
         (folder @ ''/Song C.mp3'') ''CCC''"
  by (simp add: ex_tracks_def ex_track_objects)

lemma ex_events:
  "spec_events 3 0 ex_tracks
     = [Status 1 3 ''Song A - X, Y'', Progress (1 / 3), Status 2 3 ''Song B - W'',
        Progress (2 / 3), Status 3 3 ''Song C - Z'', Progress 1]"
  by (simp add: ex_tracks_def)

lemma ex_no_fault: "track_fault ex_world quality i song = None"
  by (simp add: track_fault_def ex_world_def split: option.splits)

lemma ex_upload_fails_same:
  "download_song ex_world_upload_fails = download_song ex_world"
  "tmp_dirs ex_world_upload_fails = tmp_dirs ex_world"
  "download_raises ex_world_upload_fails i = None"
  "upload_raises ex_world_upload_fails i = (if i = 2 then Some S3UploadFailedError else None)"
  by (simp_all add: download_song_def ex_world_upload_fails_def ex_world_def fun_eq_iff)

lemma ex_fetched_upload_fails:
  "fetched ex_world_upload_fails quality i song = fetched ex_world quality i song"
  by (simp add: fetched_def ex_upload_fails_same)

lemma ex_track_object_upload_fails:
  "track_object ex_world_upload_fails folder quality i song
     = track_object ex_world folder quality i song"
  by (simp add: track_object_def ex_fetched_upload_fails ex_upload_fails_same
      cong: option.case_cong)

lemma ex_faults_upload_fails:
  "track_fault ex_world_upload_fails 192 0 ''Song A - X, Y'' = None"
  "track_fault ex_world_upload_fails 192 (Suc 0) ''Song B - W'' = None"
  "track_fault ex_world_upload_fails 192 (Suc (Suc 0)) ''Song C - Z'' = Some S3UploadFailedError"
  by (simp_all add: track_fault_def ex_fetched_upload_fails ex_fetched ex_upload_fails_same)

lemma ex_faults_before:
  "\<forall>j < 2. track_fault ex_world_upload_fails 192 (0 + j) (ex_tracks ! j) = None"
proof (intro allI impI)
  fix j :: nat assume "j < 2"
  then have "j = 0 \<or> j = Suc 0" by auto
  then show "track_fault ex_world_upload_fails 192 (0 + j) (ex_tracks ! j) = None"
    by (auto simp: ex_tracks_def ex_faults_upload_fails)
qed

lemma ex_fault_at:
  "track_fault ex_world_upload_fails 192 (0 + 2) (ex_tracks ! 2) = Some S3UploadFailedError"
  by (simp add: ex_tracks_def numeral_2_eq_2 ex_faults_upload_fails)

lemma ex_run_upload_fails:
  "download_loop ex_world_upload_fails ''mix'' 192 3 0 ex_tracks [] [Found 3, Progress 0]
     = (Some S3UploadFailedError, [(''mix/Song A.mp3'', ''AAA'')],
        [Found 3, Progress 0, Status 1 3 ''Song A - X, Y'', Progress (1 / 3),
         Status 2 3 ''Song B - W'', Progress (2 / 3), Status 3 3 ''Song C - Z''])"
proof -
  have k: "2 < length ex_tracks" and at: "ex_tracks ! 2 = ''Song C - Z''"
    and tk: "take 2 ex_tracks = [''Song A - X, Y'', ''Song B - W'']"
    by (simp_all add: ex_tracks_def)
  show ?thesis
    using download_loop_fault [OF k ex_fault_at ex_faults_before, of "''mix''" 3 "[]"
        "[Found 3, Progress 0]"]
    by (simp add: tk at ex_track_object_upload_fails ex_track_objects)
qed

text \<open>
  C3, as stated, fails in two ways. For the empty track list the loop body never runs,
  no progress is reported, and the bar keeps the value \<open>0\<close> it was created with. And
  when the upload of a fetched file raises, here in the third of three iterations, the
  loop ends there with that exception: the file is not stored, no progress is reported
  for the track, and the bar stops at \<open>2 / 3\<close>.
\<close>

theorem C3_progress_counterexample:
  "final_progress
     (snd (snd (download_loop ex_world ''mix'' 192 (length []) 0 [] [] [Found 0, Progress 0])))
   = Some 0
   \<and> fetched ex_world_upload_fails 192 2 ''Song C - Z'' = Some ''/tmp/tmpxx/Song C.mp3''
   \<and> download_loop ex_world_upload_fails ''mix'' 192 (length ex_tracks) 0 ex_tracks []
        [Found 3, Progress 0]
     = (Some S3UploadFailedError, [(''mix/Song A.mp3'', ''AAA'')],
        [Found 3, Progress 0, Status 1 3 ''Song A - X, Y'', Progress (1 / 3),
         Status 2 3 ''Song B - W'', Progress (2 / 3), Status 3 3 ''Song C - Z''])
   \<and> final_progress
       (snd (snd (download_loop ex_world_upload_fails ''mix'' 192 (length ex_tracks) 0
                    ex_tracks [] [Found 3, Progress 0])))
     = Some (2 / 3)"
proof -
  have len: "length ex_tracks = 3"
    by (simp add: ex_tracks_def)
  have fetched: "fetched ex_world_upload_fails 192 2 ''Song C - Z'' = Some ''/tmp/tmpxx/Song C.mp3''"
    by (simp add: ex_fetched_upload_fails numeral_2_eq_2 ex_fetched)
  show ?thesis
    by (simp add: len ex_run_upload_fails fetched final_progress_def)
qed

text \<open>
  C3, amended: for every resolved track list of length \<open>n\<close>, as long as no call in the
  loop raises, the loop handles the tracks in resolved order and ends without an
  error: the store is the one obtained by writing, track after track, the fetched file
  under \<open>folder/basename\<close> exactly when the fetcher returns a path (a track for which it
  returns nothing writes nothing and shows no error), and the page shows for each track
  its status line and then the progress \<open>(index + 1) / n\<close>; when the list is not empty
  the progress ends at \<open>1\<close>. When the fetch or the upload of the track at index \<open>k\<close>
  raises, and none did before, the loop ends there with that exception: the tracks
  before \<open>k\<close> have been handled as described, the last progress reported is \<open>k / n\<close>,
  and for track \<open>k\<close> only the status line is shown and nothing is stored.
\<close>

theorem C3_download_loop:
  "((\<forall>j < length canciones. track_fault w quality j (canciones ! j) = None) \<longrightarrow>
      download_loop w folder quality (length canciones) 0 canciones objects ui
        = (None, spec_store w folder quality 0 canciones objects,
           ui @ spec_events (length canciones) 0 canciones)
      \<and> (canciones \<noteq> [] \<longrightarrow>
           final_progress
             (snd (snd (download_loop w folder quality (length canciones) 0 canciones
                          objects ui)))
           = Some 1))
   \<and> (\<forall>i song. (track_object w folder quality i song = None)
                  = (fetched w quality i song = None))
   \<and> (k < length canciones \<and> track_fault w quality k (canciones ! k) = Some e
        \<and> (\<forall>j < k. track_fault w quality j (canciones ! j) = None) \<longrightarrow>
      download_loop w folder quality (length canciones) 0 canciones objects ui
        = (Some e, spec_store w folder quality 0 (take k canciones) objects,
           ui @ spec_events (length canciones) 0 (take k canciones)
              @ [Status (k + 1) (length canciones) (canciones ! k)]))"
proof (intro conjI allI impI)
  assume ok: "\<forall>j < length canciones. track_fault w quality j (canciones ! j) = None"
  then have ok': "\<forall>j < length canciones. track_fault w quality (0 + j) (canciones ! j) = None"
    by simp
  show run: "download_loop w folder quality (length canciones) 0 canciones objects ui
     = (None, spec_store w folder quality 0 canciones objects,
        ui @ spec_events (length canciones) 0 canciones)"
    by (rule download_loop_spec [OF ok'])
  assume ne: "canciones \<noteq> []"
  then have "final_progress (ui @ spec_events (length canciones) 0 canciones) = Some 1"
    using final_progress_spec_events [OF ne, of ui "length canciones" 0] by simp
  then show "final_progress
          (snd (snd (download_loop w folder quality (length canciones) 0 canciones objects ui)))
        = Some 1"
    by (simp add: run)
next
  fix i song
  show "(track_object w folder quality i song = None) = (fetched w quality i song = None)"
    by (rule track_object_None)
next
  assume h: "k < length canciones \<and> track_fault w quality k (canciones ! k) = Some e
        \<and> (\<forall>j < k. track_fault w quality j (canciones ! j) = None)"
  then have k: "k < length canciones"
    and at: "track_fault w quality (0 + k) (canciones ! k) = Some e"
    and before: "\<forall>j < k. track_fault w quality (0 + j) (canciones ! j) = None"
    by simp_all
  show "download_loop w folder quality (length canciones) 0 canciones objects ui
        = (Some e, spec_store w folder quality 0 (take k canciones) objects,
           ui @ spec_events (length canciones) 0 (take k canciones)
              @ [Status (k + 1) (length canciones) (canciones ! k)])"
    using download_loop_fault [OF k at before, of folder "length canciones" objects ui]
    by simp
qed

theorem C3_download_loop_witness:
  "download_loop ex_world ''mix'' 192 (length ex_tracks) 0 ex_tracks [] [Found 3, Progress 0]
     = (None, [(''mix/Song A.mp3'', ''AAA''), (''mix/Song C.mp3'', ''CCC'')],
        [Found 3, Progress 0, Status 1 3 ''Song A - X, Y'', Progress (1 / 3),
         Status 2 3 ''Song B - W'', Progress (2 / 3), Status 3 3 ''Song C - Z'', Progress 1])
   \<and> fetched ex_world 192 1 ''Song B - W'' = None
   \<and> track_object ex_world ''mix'' 192 1 ''Song B - W'' = None
   \<and> final_progress
       (snd (snd (download_loop ex_world ''mix'' 192 (length ex_tracks) 0 ex_tracks []
                    [Found 3, Progress 0]))) = Some 1
   \<and> download_loop ex_world_upload_fails ''mix'' 192 (length ex_tracks) 0 ex_tracks []
        [Found 3, Progress 0]
     = (Some S3UploadFailedError, [(''mix/Song A.mp3'', ''AAA'')],
        [Found 3, Progress 0, Status 1 3 ''Song A - X, Y'', Progress (1 / 3),
         Status 2 3 ''Song B - W'', Progress (2 / 3), Status 3 3 ''Song C - Z''])"
proof -
  have ne: "ex_tracks \<noteq> []" and len: "length ex_tracks = 3"
    and at: "ex_tracks ! 2 = ''Song C - Z''"
    and tk: "take 2 ex_tracks = [''Song A - X, Y'', ''Song B - W'']"
    by (simp_all add: ex_tracks_def)
  have ok: "\<forall>j < length ex_tracks. track_fault ex_world 192 j (ex_tracks ! j) = None"
    by (simp add: ex_no_fault)
  have k: "2 < length ex_tracks \<and> track_fault ex_world_upload_fails 192 2 (ex_tracks ! 2)
             = Some S3UploadFailedError
           \<and> (\<forall>j < 2. track_fault ex_world_upload_fails 192 j (ex_tracks ! j) = None)"
    using ex_fault_at ex_faults_before by (simp add: len numeral_2_eq_2)
  have good: "download_loop ex_world ''mix'' 192 (length ex_tracks) 0 ex_tracks []
                [Found 3, Progress 0]
      = (None, spec_store ex_world ''mix'' 192 0 ex_tracks [],
         [Found 3, Progress 0] @ spec_events (length ex_tracks) 0 ex_tracks)
      \<and> final_progress
           (snd (snd (download_loop ex_world ''mix'' 192 (length ex_tracks) 0 ex_tracks []
                        [Found 3, Progress 0]))) = Some 1"
    using C3_download_loop [of ex_tracks ex_world 192 "''mix''" "[]" "[Found 3, Progress 0]" 0
        S3UploadFailedError] ok ne
    by blast
  have bad: "download_loop ex_world_upload_fails ''mix'' 192 (length ex_tracks) 0 ex_tracks []
               [Found 3, Progress 0]
      = (Some S3UploadFailedError,
         spec_store ex_world_upload_fails ''mix'' 192 0 (take 2 ex_tracks) [],
         [Found 3, Progress 0] @ spec_events (length ex_tracks) 0 (take 2 ex_tracks)
           @ [Status (2 + 1) (length ex_tracks) (ex_tracks ! 2)])"
    using C3_download_loop [of ex_tracks ex_world_upload_fails 192 "''mix''" "[]"
        "[Found 3, Progress 0]" 2 S3UploadFailedError] k
    by blast
  have skipped: "(track_object ex_world ''mix'' 192 1 ''Song B - W'' = None)
                   = (fetched ex_world 192 1 ''Song B - W'' = None)"
    using C3_download_loop [of ex_tracks ex_world 192 "''mix''" "[]" "[Found 3, Progress 0]" 0
        S3UploadFailedError]
    by blast
  have absent: "fetched ex_world 192 1 ''Song B - W'' = None"
    by (simp add: ex_fetched)
  show ?thesis
    using good bad skipped absent
    by (simp add: len tk at ex_store ex_events ex_track_object_upload_fails ex_track_objects
        final_progress_def)
qed

section \<open>The folder name: results\<close>

lemma ex_resolved: "get_playlist_tracks ex_cfg ex_api ex_playlist_url = Some (Inr ex_tracks)"
  using get_playlist_tracks_serves [OF ex_token_ok ex_id ex_serves] spec_resolved_ex by simp

lemma safe_name_hashes: "safe_name_of ''###'' = []"
  by (simp add: safe_name_of_def strip_def lstrip_def rstrip_def isalnum_def ord_def)

lemma safe_name_example: "safe_name_of ''My Mix! #1'' = ''My Mix 1''"
  by (simp add: safe_name_of_def strip_def lstrip_def rstrip_def isalnum_def isspace_def ord_def)

lemma set_rstrip: "set (rstrip xs) \<subseteq> set xs"
  by (auto simp: rstrip_def dest: set_dropWhileD)

lemma set_strip: "set (strip xs) \<subseteq> set xs"
  using set_rstrip [of "lstrip xs"] set_lstrip [of xs] by (auto simp: strip_def)

lemma safe_name_chars:
  "set (safe_name_of folder_name)
     \<subseteq> {c. isalnum c \<or> c = CHR '' '' \<or> c = CHR ''-'' \<or> c = CHR ''_''}"
  using set_strip [of "filter (\<lambda>c. isalnum c \<or> c \<in> set '' -_'') folder_name"]
  by (auto simp: safe_name_of_def)

text \<open>
  C1: the folder name is reduced to its alphanumeric characters, spaces, \<open>-\<close> and \<open>_\<close>
  (\<open>My Mix! #1\<close> becomes \<open>My Mix 1\<close>), but an empty result is not refused: the
  handler tests the name before it is sanitized. With the folder name \<open>###\<close> the run
  goes through, shows no error and writes the tracks under the empty folder name.
\<close>

theorem C1_empty_safe_name_not_rejected:
  "safe_name_of ''My Mix! #1'' = ''My Mix 1''
   \<and> safe_name_of ''###'' = []
   \<and> download_playlist ex_cfg ex_api ex_world [] ex_playlist_url ''###'' 192
     = Some ([(''/Song A.mp3'', ''AAA''), (''/Song C.mp3'', ''CCC'')],
             [Found 3, Progress 0, Status 1 3 ''Song A - X, Y'', Progress (1 / 3),
              Status 2 3 ''Song B - W'', Progress (2 / 3), Status 3 3 ''Song C - Z'', Progress 1,
              Saved []])"
proof -
  have guard: "strip ''###'' \<noteq> []"
    by (simp add: strip_def lstrip_def rstrip_def isspace_def ord_def)
  have len: "length ex_tracks = 3"
    by (simp add: ex_tracks_def)
  show ?thesis
    using ex_guards guard ex_resolved safe_name_hashes safe_name_example
      ex_store [of "[]" "[]"] ex_events
    by (simp add: download_playlist_def download_loop_spec ex_no_fault len)
qed

section \<open>The library store: results\<close>

lemma get_object_put:
  "get_object (put_object objects key body) k
     = (if k = key then Some body else get_object objects k)"
  by (induction objects key body rule: put_object.induct) (auto simp: get_object_def)

lemma keys_put_object:
  "map fst (put_object objects key body)
     = (if key \<in> set (map fst objects) then map fst objects else map fst objects @ [key])"
  by (induction objects key body rule: put_object.induct) auto

lemma distinct_put_object:
  "distinct (map fst objects) \<Longrightarrow> distinct (map fst (put_object objects key body))"
  by (simp add: keys_put_object)

lemma last_split_acc:
  "last (split_acc d cur xs)
     = (if d \<in> set xs then rev (takeWhile (\<lambda>c. c \<noteq> d) (rev xs)) else cur @ xs)"
proof (induction xs arbitrary: cur)
  case Nil
  then show ?case by simp
next
  case (Cons x xs)
  show ?case
  proof (cases "x = d")
    case True
    then show ?thesis
      using Cons.IH [of "[]"] split_acc_nonempty [of d "[]" xs]
      by (auto simp: takeWhile_append)
  next
    case False
    then show ?thesis
      using Cons.IH [of "cur @ [x]"]
      by (auto simp: takeWhile_append)
  qed
qed

lemma os_path_basename_last: "os_path_basename p = last (split CHR ''/'' p)"
proof (cases "CHR ''/'' \<in> set p")
  case True
  then show ?thesis by (simp add: os_path_basename_def split_def last_split_acc)
next
  case False
  then have "\<forall>c \<in> set (rev p). c \<noteq> CHR ''/''"
    by auto
  then have "takeWhile (\<lambda>c. c \<noteq> CHR ''/'') (rev p) = rev p"
    by (simp only: takeWhile_eq_all_conv)
  then have "os_path_basename p = p"
    unfolding os_path_basename_def by (simp only: rev_rev_ident)
  with False show ?thesis by (simp add: split_def last_split_acc)
qed

text \<open>
  C6: for a local file that exists, \<open>upload_song_to_b2\<close> returns the key
  \<open>folder/basename\<close>, the basename being the part of the path after its last \<open>/\<close>,
  and stores the file's bytes under that key. Every other object is left as it was;
  when the key already exists the bytes under it are replaced and the list of keys
  does not change, so that no key occurs twice.
\<close>

theorem C6_upload_song_to_b2:
  assumes "files file_path = Some body"
  shows "upload_song_to_b2 files objects file_path folder
           = Inr (folder @ ''/'' @ os_path_basename file_path,
                  put_object objects (folder @ ''/'' @ os_path_basename file_path) body)
         \<and> os_path_basename file_path = last (split CHR ''/'' file_path)
         \<and> get_object (put_object objects (folder @ ''/'' @ os_path_basename file_path) body)
              (folder @ ''/'' @ os_path_basename file_path) = Some body
         \<and> (\<forall>k. k \<noteq> folder @ ''/'' @ os_path_basename file_path \<longrightarrow>
               get_object (put_object objects (folder @ ''/'' @ os_path_basename file_path) body) k
                 = get_object objects k)
         \<and> (folder @ ''/'' @ os_path_basename file_path \<in> set (map fst objects) \<longrightarrow>
               map fst (put_object objects (folder @ ''/'' @ os_path_basename file_path) body)
                 = map fst objects)
         \<and> (distinct (map fst objects) \<longrightarrow>
               distinct (map fst (put_object objects (folder @ ''/'' @ os_path_basename file_path) body)))"
  using assms
  by (simp add: upload_song_to_b2_def Let_def get_object_put keys_put_object
      os_path_basename_last [symmetric])

theorem C6_upload_song_to_b2_witness:
  "upload_song_to_b2 [''/tmp/t/Song A.mp3'' \<mapsto> ''NEW'']
     [(''mix/Song A.mp3'', ''OLD''), (''mix/b.mp3'', ''B'')] ''/tmp/t/Song A.mp3'' ''mix''
   = Inr (''mix/Song A.mp3'', [(''mix/Song A.mp3'', ''NEW''), (''mix/b.mp3'', ''B'')])"
  using C6_upload_song_to_b2 [of "[''/tmp/t/Song A.mp3'' \<mapsto> ''NEW'']" "''/tmp/t/Song A.mp3''"
      "''NEW''" "[(''mix/Song A.mp3'', ''OLD''), (''mix/b.mp3'', ''B'')]" "''mix''"]
  by (simp add: os_path_basename_def)

lemma songs_of_spec:
  "songs_of keys songs
     = songs @ map (\<lambda>key. \<lparr> song_key = key, song_file = last (split CHR ''/'' key) \<rparr>)
                 (filter (\<lambda>key. endswith key ''.mp3'') keys)"
  by (induction keys arbitrary: songs) auto

lemma list_songs_in_playlist_spec:
  "list_songs_in_playlist objects playlist_name
     = map (\<lambda>key. \<lparr> song_key = key, song_file = last (split CHR ''/'' key) \<rparr>)
         (filter (\<lambda>key. endswith key ''.mp3'')
            (take MaxKeys (filter (\<lambda>key. startswith key (playlist_name @ ''/'')) (map fst objects))))"
  by (simp add: list_songs_in_playlist_def list_objects_v2_def songs_of_spec)

lemma list_songs_in_playlist_complete:
  assumes "length (filter (\<lambda>key. startswith key (playlist_name @ ''/'')) (map fst objects)) \<le> MaxKeys"
  shows "list_songs_in_playlist objects playlist_name
     = map (\<lambda>key. \<lparr> song_key = key, song_file = last (split CHR ''/'' key) \<rparr>)
         (filter (\<lambda>key. startswith key (playlist_name @ ''/'') \<and> endswith key ''.mp3'')
            (map fst objects))"
  using assms by (simp add: list_songs_in_playlist_spec conj_commute)

lemma ex_big_keys:
  "map fst ex_big_bucket = map (\<lambda>i. ''mix/'' @ replicate i CHR ''a'' @ ''.mp3'') [0..<1001]"
  by (simp add: ex_big_bucket_def comp_def)

lemma ex_big_key_matches:
  "startswith (''mix/'' @ replicate i CHR ''a'' @ ''.mp3'') ''mix/''"
  "endswith (''mix/'' @ replicate i CHR ''a'' @ ''.mp3'') ''.mp3''"
  by (simp_all add: startswith_def endswith_def)

lemma ex_big_key_inj:
  "''mix/'' @ replicate i CHR ''a'' @ ''.mp3'' = ''mix/'' @ replicate j CHR ''a'' @ ''.mp3''
     \<Longrightarrow> i = j"
proof -
  assume "''mix/'' @ replicate i CHR ''a'' @ ''.mp3'' = ''mix/'' @ replicate j CHR ''a'' @ ''.mp3''"
  then have "length (''mix/'' @ replicate i CHR ''a'' @ ''.mp3'')
               = length (''mix/'' @ replicate j CHR ''a'' @ ''.mp3'')"
    by (rule arg_cong)
  then show "i = j" by simp
qed

lemma ex_big_listed:
  "list_songs_in_playlist ex_big_bucket ''mix''
     = map (\<lambda>key. \<lparr> song_key = key, song_file = last (split CHR ''/'' key) \<rparr>)
         (map (\<lambda>i. ''mix/'' @ replicate i CHR ''a'' @ ''.mp3'') [0..<1000])"
proof -
  have all: "filter (\<lambda>key. startswith key (''mix'' @ ''/'')) (map fst ex_big_bucket)
               = map fst ex_big_bucket"
    using ex_big_key_matches(1) by (auto simp: ex_big_keys filter_map comp_def)
  have "take MaxKeys (map fst ex_big_bucket)
          = map (\<lambda>i. ''mix/'' @ replicate i CHR ''a'' @ ''.mp3'') [0..<1000]"
    by (simp add: ex_big_keys MaxKeys_def take_map)
  moreover have "filter (\<lambda>key. endswith key ''.mp3'')
          (map (\<lambda>i. ''mix/'' @ replicate i CHR ''a'' @ ''.mp3'') [0..<1000])
        = map (\<lambda>i. ''mix/'' @ replicate i CHR ''a'' @ ''.mp3'') [0..<1000]"
    using ex_big_key_matches(2) by (auto simp: filter_map comp_def)
  ultimately show ?thesis
    by (simp only: list_songs_in_playlist_spec all)
qed

text \<open>
  C7: \<open>list_songs_in_playlist\<close> reads the answer of a single listing call, which holds
  at most \<open>MaxKeys\<close> keys. In a bucket with 1001 \<open>.mp3\<close> objects under \<open>mix/\<close> it
  returns 1000 entries, and the object \<open>mix/a...a.mp3\<close> (a thousand times \<open>a\<close>) is in
  the bucket and not in the result. (\<open>list_songs_in_playlist_complete\<close>: with at most
  \<open>MaxKeys\<close> keys under the prefix the result is every \<open>.mp3\<close> object under it, and
  nothing else.)
\<close>

theorem C7_listing_truncated:
  "length (filter (\<lambda>key. startswith key (''mix'' @ ''/'') \<and> endswith key ''.mp3'')
             (map fst ex_big_bucket)) = 1001
   \<and> length (list_songs_in_playlist ex_big_bucket ''mix'') = 1000
   \<and> ''mix/'' @ replicate 1000 CHR ''a'' @ ''.mp3'' \<in> set (map fst ex_big_bucket)
   \<and> ''mix/'' @ replicate 1000 CHR ''a'' @ ''.mp3''
        \<notin> set (map song_key (list_songs_in_playlist ex_big_bucket ''mix''))"
proof (intro conjI)
  have "filter (\<lambda>key. startswith key (''mix'' @ ''/'') \<and> endswith key ''.mp3'')
          (map fst ex_big_bucket) = map fst ex_big_bucket"
    using ex_big_key_matches by (auto simp: ex_big_keys filter_map comp_def)
  then show "length (filter (\<lambda>key. startswith key (''mix'' @ ''/'') \<and> endswith key ''.mp3'')
             (map fst ex_big_bucket)) = 1001"
    by (simp add: ex_big_bucket_def)
next
  show "length (list_songs_in_playlist ex_big_bucket ''mix'') = 1000"
    by (simp add: ex_big_listed)
next
  have "(1000::nat) \<in> set [0..<1001]" by simp
  then show "''mix/'' @ replicate 1000 CHR ''a'' @ ''.mp3'' \<in> set (map fst ex_big_bucket)"
    unfolding ex_big_keys set_map by (rule imageI)
next
  have "map song_key (list_songs_in_playlist ex_big_bucket ''mix'')
          = map (\<lambda>i. ''mix/'' @ replicate i CHR ''a'' @ ''.mp3'') [0..<1000]"
    by (simp add: ex_big_listed comp_def)
  moreover have "''mix/'' @ replicate 1000 CHR ''a'' @ ''.mp3''
          \<notin> set (map (\<lambda>i. ''mix/'' @ replicate i CHR ''a'' @ ''.mp3'') [0..<1000])"
  proof
    assume "''mix/'' @ replicate 1000 CHR ''a'' @ ''.mp3''
          \<in> set (map (\<lambda>i. ''mix/'' @ replicate i CHR ''a'' @ ''.mp3'') [0..<1000])"
    then obtain i where "i < 1000"
      "''mix/'' @ replicate 1000 CHR ''a'' @ ''.mp3'' = ''mix/'' @ replicate i CHR ''a'' @ ''.mp3''"
      by auto
    then show False using ex_big_key_inj [of 1000 i] by simp
  qed
  ultimately show "''mix/'' @ replicate 1000 CHR ''a'' @ ''.mp3''
        \<notin> set (map song_key (list_songs_in_playlist ex_big_bucket ''mix''))"
    by simp
qed

section \<open>The audio fetcher: results\<close>

lemma os_path_join_inside:
  assumes "CHR ''/'' \<notin> set f"
  shows "os_path_basename (os_path_join dir f) = f \<and> startswith (os_path_join dir f) dir"
proof -
  have nostart: "\<not> startswith f ''/''"
    using assms by (cases f) (auto simp: startswith_def)
  have all: "\<forall>c \<in> set (rev f). c \<noteq> CHR ''/''"
    using assms by auto
  have tw: "takeWhile (\<lambda>c. c \<noteq> CHR ''/'') (rev f @ CHR ''/'' # xs) = rev f" for xs
    using all by (simp add: takeWhile_tail)
  have tw0: "takeWhile (\<lambda>c. c \<noteq> CHR ''/'') (rev f) = rev f"
    using all by (simp only: takeWhile_eq_all_conv)
  show ?thesis
  proof (cases "dir = []")
    case True
    then show ?thesis
      using nostart by (simp add: os_path_join_def os_path_basename_def tw0 startswith_def)
  next
    case False
    then obtain d' where d': "endswith dir ''/'' \<Longrightarrow> dir = d' @ ''/''"
      by (metis append_take_drop_id endswith_def)
    show ?thesis
    proof (cases "endswith dir ''/''")
      case True
      with d' have "dir = d' @ ''/''" by simp
      then show ?thesis
        using nostart True
        by (simp add: os_path_join_def os_path_basename_def tw startswith_def)
    next
      case False
      then show ?thesis
        using nostart
        by (simp add: os_path_join_def os_path_basename_def tw tw0 startswith_def)
    qed
  qed
qed

text \<open>
  C8: \<open>download_song\<close> hands the downloader the single query \<open>ytsearch1:\<close> followed by
  the label; it returns \<open>None\<close> exactly when no entry of the directory ends in
  \<open>.mp3\<close>, and otherwise the destination directory joined with the first entry that
  does. For an entry name (no \<open>/\<close> in it) that path lies in the destination directory:
  it starts with the directory and its basename is the entry.
\<close>

theorem C8_download_song:
  "fst (download_song w song_name output_path quality)
     = ydl_download w [''ytsearch1:'' @ song_name] output_path quality
   \<and> (snd (download_song w song_name output_path quality) = None
        \<longleftrightarrow> (\<forall>f \<in> set (map fst (ydl_download w [''ytsearch1:'' @ song_name] output_path quality)).
               \<not> endswith f ''.mp3''))
   \<and> (snd (download_song w song_name output_path quality) = Some path
        \<longleftrightarrow> (\<exists>pre f post.
               map fst (ydl_download w [''ytsearch1:'' @ song_name] output_path quality)
                 = pre @ f # post
               \<and> endswith f ''.mp3'' \<and> (\<forall>g \<in> set pre. \<not> endswith g ''.mp3'')
               \<and> path = os_path_join output_path f))
   \<and> (CHR ''/'' \<notin> set entry \<longrightarrow>
        os_path_basename (os_path_join output_path entry) = entry
        \<and> startswith (os_path_join output_path entry) output_path)"
proof (intro conjI)
  show "fst (download_song w song_name output_path quality)
     = ydl_download w [''ytsearch1:'' @ song_name] output_path quality"
    by (simp add: download_song_def Let_def)
next
  show "snd (download_song w song_name output_path quality) = None
        \<longleftrightarrow> (\<forall>f \<in> set (map fst (ydl_download w [''ytsearch1:'' @ song_name] output_path quality)).
               \<not> endswith f ''.mp3'')"
    by (simp only: download_song_def Let_def snd_conv first_mp3_None)
next
  show "snd (download_song w song_name output_path quality) = Some path
        \<longleftrightarrow> (\<exists>pre f post.
               map fst (ydl_download w [''ytsearch1:'' @ song_name] output_path quality)
                 = pre @ f # post
               \<and> endswith f ''.mp3'' \<and> (\<forall>g \<in> set pre. \<not> endswith g ''.mp3'')
               \<and> path = os_path_join output_path f)"
    by (simp only: download_song_def Let_def snd_conv first_mp3_Some)
next
  show "CHR ''/'' \<notin> set entry \<longrightarrow>
        os_path_basename (os_path_join output_path entry) = entry
        \<and> startswith (os_path_join output_path entry) output_path"
    using os_path_join_inside [of entry output_path] by blast
qed

theorem C8_download_song_witness:
  "download_song ex_world ''Song A - X, Y'' ''/tmp/d'' 192
     = ([(''Song A.webm'', ''raw''), (''Song A.mp3'', ''AAA'')], Some ''/tmp/d/Song A.mp3'')
   \<and> snd (download_song ex_world ''Song B - W'' ''/tmp/d'' 192) = None
   \<and> os_path_basename ''/tmp/d/Song A.mp3'' = ''Song A.mp3''
   \<and> startswith ''/tmp/d/Song A.mp3'' ''/tmp/d''"
proof -
  have listing: "ydl_download ex_world [''ytsearch1:Song A - X, Y''] ''/tmp/d'' 192
                   = [(''Song A.webm'', ''raw''), (''Song A.mp3'', ''AAA'')]"
    by (simp add: ex_world_def)
  have joined: "os_path_join ''/tmp/d'' ''Song A.mp3'' = ''/tmp/d/Song A.mp3''"
    by (simp add: os_path_join_def startswith_def endswith_def)
  have "\<exists>pre f post.
          map fst (ydl_download ex_world [''ytsearch1:'' @ ''Song A - X, Y''] ''/tmp/d'' 192)
            = pre @ f # post
          \<and> endswith f ''.mp3'' \<and> (\<forall>g \<in> set pre. \<not> endswith g ''.mp3'')
          \<and> ''/tmp/d/Song A.mp3'' = os_path_join ''/tmp/d'' f"
    by (rule exI [of _ "[''Song A.webm'']"], rule exI [of _ "''Song A.mp3''"],
        rule exI [of _ "[]"])
      (simp add: listing joined endswith_def)
  moreover have "\<forall>f \<in> set (map fst (ydl_download ex_world [''ytsearch1:'' @ ''Song B - W'']
                                      ''/tmp/d'' 192)). \<not> endswith f ''.mp3''"
    by (simp add: ex_world_def)
  moreover have "CHR ''/'' \<notin> set ''Song A.mp3''"
    by simp
  ultimately have "fst (download_song ex_world ''Song A - X, Y'' ''/tmp/d'' 192)
                     = [(''Song A.webm'', ''raw''), (''Song A.mp3'', ''AAA'')]
      \<and> snd (download_song ex_world ''Song A - X, Y'' ''/tmp/d'' 192) = Some ''/tmp/d/Song A.mp3''
      \<and> snd (download_song ex_world ''Song B - W'' ''/tmp/d'' 192) = None
      \<and> os_path_basename (os_path_join ''/tmp/d'' ''Song A.mp3'') = ''Song A.mp3''
      \<and> startswith (os_path_join ''/tmp/d'' ''Song A.mp3'') ''/tmp/d''"
    using C8_download_song [of ex_world "''Song A - X, Y''" "''/tmp/d''" 192
        "''/tmp/d/Song A.mp3''" "''Song A.mp3''"]
      C8_download_song [of ex_world "''Song B - W''" "''/tmp/d''" 192 "[]" "''Song A.mp3''"]
      listing
    by simp
  then show ?thesis
    by (simp add: joined prod_eq_iff)
qed

end
